theory Spec2Isabelle
  imports Complex_Main "HOL-Library.Sublist" "HOL-Library.AList"
begin

section \<open>Python strings\<close>

text \<open>
  A Python \<open>str\<close> is modelled as a \<open>string\<close> (a list of \<open>char\<close>). The character
  classes below are those of Python on the ASCII range: letters \<open>A\<close>..\<open>Z\<close> and
  \<open>a\<close>..\<open>z\<close> are the cased characters, \<open>0\<close>..\<open>9\<close> the digits, and the white space
  of \<open>str.split()\<close> and \<open>str.strip()\<close> is tab, line feed, vertical tab, form feed,
  carriage return, the four separators \<open>0x1c\<close>..\<open>0x1f\<close> and the space. A character
  outside the ASCII range is neither cased, nor a digit, nor white space in this model.
\<close>

definition is_upper_char :: "char \<Rightarrow> bool" where
  "is_upper_char c = (let n = (of_char c :: nat) in 65 \<le> n \<and> n \<le> 90)"

definition is_lower_char :: "char \<Rightarrow> bool" where
  "is_lower_char c = (let n = (of_char c :: nat) in 97 \<le> n \<and> n \<le> 122)"

definition is_digit_char :: "char \<Rightarrow> bool" where
  "is_digit_char c = (let n = (of_char c :: nat) in 48 \<le> n \<and> n \<le> 57)"

definition is_space_char :: "char \<Rightarrow> bool" where
  "is_space_char c = (let n = (of_char c :: nat) in (9 \<le> n \<and> n \<le> 13) \<or> (28 \<le> n \<and> n \<le> 32))"

definition lower_char :: "char \<Rightarrow> char" where
  "lower_char c = (if is_upper_char c then char_of ((of_char c :: nat) + 32) else c)"

definition upper_char :: "char \<Rightarrow> char" where
  "upper_char c = (if is_lower_char c then char_of ((of_char c :: nat) - 32) else c)"

text \<open>\<open>s.lower()\<close>\<close>

definition str_lower :: "string \<Rightarrow> string" where
  "str_lower s = map lower_char s"

text \<open>\<open>k in s\<close> for two strings: \<open>k\<close> occurs in \<open>s\<close> as a contiguous substring.\<close>

fun str_in :: "string \<Rightarrow> string \<Rightarrow> bool" where
  "str_in k [] = (k = [])"
| "str_in k (c # cs) = (prefix k (c # cs) \<or> str_in k cs)"

text \<open>\<open>s.strip()\<close>\<close>

definition str_strip :: "string \<Rightarrow> string" where
  "str_strip s = rev (dropWhile is_space_char (rev (dropWhile is_space_char s)))"

text \<open>
  \<open>s.split()\<close>: the maximal runs of characters that are not white space. The first
  argument collects the current run, in reverse.
\<close>

fun split_run :: "string \<Rightarrow> string \<Rightarrow> string list" where
  "split_run cur [] = (if cur = [] then [] else [rev cur])"
| "split_run cur (c # cs) =
     (if is_space_char c
      then (if cur = [] then split_run [] cs else rev cur # split_run [] cs)
      else split_run (c # cur) cs)"

definition str_split :: "string \<Rightarrow> string list" where
  "str_split s = split_run [] s"

text \<open>\<open>" ".join(ws)\<close>\<close>

fun join_space :: "string list \<Rightarrow> string" where
  "join_space [] = []"
| "join_space [w] = w"
| "join_space (w # v # ws) = w @ CHR '' '' # join_space (v # ws)"

text \<open>
  \<open>s.title()\<close>: a cased character is upper-cased when the character before it is not
  cased, and lower-cased when it is. The flag says whether the previous character was
  cased.
\<close>

fun title_from :: "bool \<Rightarrow> string \<Rightarrow> string" where
  "title_from prev [] = []"
| "title_from prev (c # cs) =
     (if is_lower_char c then (if prev then c else upper_char c) # title_from True cs
      else if is_upper_char c then (if prev then lower_char c else c) # title_from True cs
      else c # title_from False cs)"

definition str_title :: "string \<Rightarrow> string" where
  "str_title s = title_from False s"

text \<open>\<open>s.isupper()\<close>: there is a cased character and no cased character is lower case.\<close>

definition str_isupper :: "string \<Rightarrow> bool" where
  "str_isupper s = (list_ex is_upper_char s \<and> \<not> list_ex is_lower_char s)"

text \<open>\<open>s.isdigit()\<close>: the string is not empty and all its characters are digits.\<close>

definition str_isdigit :: "string \<Rightarrow> bool" where
  "str_isdigit s = (s \<noteq> [] \<and> list_all is_digit_char s)"

text \<open>\<open>s.startswith(p)\<close> is \<^const>\<open>prefix\<close>; \<open>s[n:]\<close> is \<^const>\<open>drop\<close>, \<open>s[:n]\<close> is \<^const>\<open>take\<close>.\<close>

text \<open>
  \<open>int(s)\<close> for a string in base 10: an optional sign, then digits, where single
  underscores may stand between two digits; white space around the number is ignored.
  \<open>None\<close> is the \<open>ValueError\<close>.
\<close>

fun int_digits :: "bool \<Rightarrow> nat \<Rightarrow> string \<Rightarrow> nat option" where
  "int_digits prev acc [] = (if prev then Some acc else None)"
| "int_digits prev acc (c # cs) =
     (if is_digit_char c then int_digits True (10 * acc + ((of_char c :: nat) - 48)) cs
      else if c = CHR ''_'' \<and> prev then int_digits False acc cs
      else None)"

definition py_int :: "string \<Rightarrow> int option" where
  "py_int s =
     (case str_strip s of
        [] \<Rightarrow> None
      | c # cs \<Rightarrow>
          if c = CHR ''+'' then map_option int (int_digits False 0 cs)
          else if c = CHR ''-'' then map_option (\<lambda>n. - int n) (int_digits False 0 cs)
          else map_option int (int_digits False 0 (c # cs)))"

section \<open>Python floats\<close>

text \<open>
  A Python \<open>float\<close> is a real number or \<open>nan\<close>. Finite values are computed with exactly;
  rounding and the infinities are outside the model. Every comparison with \<open>nan\<close> is
  false, and arithmetic with \<open>nan\<close> gives \<open>nan\<close>.
\<close>

datatype pyfloat = Fl real | NaN

fun fl_gt :: "pyfloat \<Rightarrow> real \<Rightarrow> bool" where
  "fl_gt (Fl x) y = (x > y)"
| "fl_gt NaN y = False"

fun fl_add :: "pyfloat \<Rightarrow> pyfloat \<Rightarrow> pyfloat" where
  "fl_add (Fl x) (Fl y) = Fl (x + y)"
| "fl_add _ _ = NaN"

fun fl_mul :: "pyfloat \<Rightarrow> real \<Rightarrow> pyfloat" where
  "fl_mul (Fl x) m = Fl (x * m)"
| "fl_mul NaN m = NaN"

section \<open>The category classifier\<close>

text \<open>The exceptions that the modelled code raises.\<close>

datatype error = EOFError | KeyError | ValueError | TypeError | NotImplementedError | OSError

text \<open>
  \<open>categorization_config\<close>: the dictionary \<open>{"categories": {name: [keyword, ...]},
  "default_category": name}\<close>. A Python dictionary keeps its keys in insertion order, so
  \<open>categories\<close> is an association list; \<open>d[k] = v\<close> is \<^const>\<open>AList.update\<close>, which
  replaces the value of a key that is present, in place, and adds a new key at the end.
  The key \<open>default_category\<close> may be absent.
\<close>

record config =
  categories :: "(string \<times> string list) list"
  default_category :: "string option"

text \<open>
  The analyzer's state: the rule set in memory and the content of \<open>config_file\<close> on
  disk, which is \<open>Some c\<close> when the file holds the complete dump of \<open>c\<close> and \<open>None\<close>
  otherwise.
\<close>

record analyzer =
  categorization_config :: config
  config_file :: "config option"

definition AVAILABLE_CATEGORIES :: "string list" where
  "AVAILABLE_CATEGORIES =
     [''Food'', ''Travel'', ''Shopping'', ''Utilities'', ''Healthcare'',
      ''Entertainment'', ''Services'', ''Payment'']"

text \<open>The rule set that \<open>load_categorization_config\<close> returns when the file is missing.\<close>

definition default_config :: config where
  "default_config =
     \<lparr>categories =
        [(''Food'', [''restaurant'', ''cafe'', ''food'']),
         (''Transportation'', [''uber'', ''lyft'', ''gas'', ''parking'']),
         (''Shopping'', [''amazon'', ''store'']),
         (''Other'', [])],
      default_category = Some ''Other''\<rparr>"

subsection \<open>\<open>extract_key_term_for_config\<close>\<close>

text \<open>The loop over \<open>prefixes_to_remove\<close>, which stops at the first prefix it removes.\<close>

fun remove_first_prefix :: "string list \<Rightarrow> string \<Rightarrow> string" where
  "remove_first_prefix [] clean_desc = clean_desc"
| "remove_first_prefix (p # ps) clean_desc =
     (if prefix (str_lower p) (str_lower clean_desc)
      then str_strip (drop (length p) clean_desc)
      else remove_first_prefix ps clean_desc)"

definition skip_words :: "string list" where
  "skip_words = [''inc'', ''llc'', ''com'', ''www'', ''phone'', ''number'']"

text \<open>
  The loop over \<open>words[:3]\<close>; the second argument is \<open>meaningful_words\<close>. The loop
  stops as soon as two words are collected.
\<close>

fun collect_meaningful :: "string list \<Rightarrow> string list \<Rightarrow> string list" where
  "collect_meaningful [] meaningful_words = meaningful_words"
| "collect_meaningful (word # ws) meaningful_words =
     (if length word > 2 \<and> \<not> str_isdigit word \<and> str_lower word \<notin> set skip_words
      then (let m = meaningful_words @ [str_lower word]
            in if length m \<ge> 2 then m else collect_meaningful ws m)
      else collect_meaningful ws meaningful_words)"

definition extract_key_term_for_config :: "string \<Rightarrow> string" where
  "extract_key_term_for_config description =
     (let clean_desc =
            remove_first_prefix [''sq *'', ''tst*'', ''sp '', ''fsp*'', ''6602-''] description;
          words = str_split clean_desc;
          meaningful_words = collect_meaningful (take 3 words) []
      in if meaningful_words \<noteq> [] then join_space meaningful_words
         else (case words of w # _ \<Rightarrow> str_lower w | [] \<Rightarrow> take 10 (str_lower description)))"

subsection \<open>\<open>update_config_with_new_keyword\<close>\<close>

text \<open>
  The write of the rule set to \<open>config_file\<close> is an effect on the world outside the
  program, so its outcome is an input of the model: the write succeeds, or opening the
  file raises and the file stays as it was, or the dump raises after the file was
  truncated.
\<close>

datatype write_outcome = WriteOk | OpenFails | DumpFails

text \<open>The body of the \<open>try\<close> block: the exception raised, if any, and the file afterwards.\<close>

fun dump_config :: "write_outcome \<Rightarrow> config \<Rightarrow> config option \<Rightarrow> error option \<times> config option" where
  "dump_config WriteOk c f = (None, Some c)"
| "dump_config OpenFails c f = (Some OSError, f)"
| "dump_config DumpFails c f = (Some OSError, None)"

text \<open>
  \<open>categories[category]\<close> for a key that is present; the code reads it only after it
  has made sure that the key is there.
\<close>

definition keywords_of :: "(string \<times> string list) list \<Rightarrow> string \<Rightarrow> string list" where
  "keywords_of cats category = (case map_of cats category of Some ks \<Rightarrow> ks | None \<Rightarrow> [])"

text \<open>The first half of the function, which adds the keyword to the rule set in memory.\<close>

definition add_keyword :: "config \<Rightarrow> string \<Rightarrow> string \<Rightarrow> config" where
  "add_keyword c category keyword =
     (let cats1 = (if category \<notin> fst ` set (categories c)
                   then AList.update category [] (categories c) else categories c);
          cats2 = (if keyword \<notin> set (keywords_of cats1 category)
                   then AList.update category (keywords_of cats1 category @ [keyword]) cats1
                   else cats1)
      in c\<lparr>categories := cats2\<rparr>)"

text \<open>
  The whole function: the second half writes the rule set to the file, and
  \<open>except Exception\<close> catches whatever the write raises, so both branches return.
\<close>

definition update_config_with_new_keyword ::
  "analyzer \<Rightarrow> string \<Rightarrow> string \<Rightarrow> write_outcome \<Rightarrow> error + analyzer" where
  "update_config_with_new_keyword st category keyword w =
     (let c' = add_keyword (categorization_config st) category keyword
      in case dump_config w c' (config_file st) of
           (None, f) \<Rightarrow> Inr \<lparr>categorization_config = c', config_file = f\<rparr>
         | (Some e, f) \<Rightarrow> Inr \<lparr>categorization_config = c', config_file = f\<rparr>)"

subsection \<open>\<open>prompt_user_for_category\<close>\<close>

text \<open>
  What \<open>input()\<close> does is an input of the model: a list of events, each a line typed by
  the user or an interrupt signal while the program waits. When the list is used up,
  standard input is at its end and \<open>input()\<close> raises \<open>EOFError\<close>, which the function does
  not catch. The function returns its result, the new state and the events not yet
  consumed.
\<close>

datatype event = Line string | KeyboardInterrupt

fun prompt_user_for_category ::
  "analyzer \<Rightarrow> string \<Rightarrow> pyfloat \<Rightarrow> write_outcome \<Rightarrow> event list
     \<Rightarrow> (error + string) \<times> analyzer \<times> event list" where
  "prompt_user_for_category st description amount w [] = (Inl EOFError, st, [])"
| "prompt_user_for_category st description amount w (KeyboardInterrupt # evs) =
     (Inr (case default_category (categorization_config st) of
             Some d \<Rightarrow> d | None \<Rightarrow> ''Other''), st, evs)"
| "prompt_user_for_category st description amount w (Line l # evs) =
     (let choice = str_strip l
      in if choice = [] then prompt_user_for_category st description amount w evs
         else (case py_int choice of
                 None \<Rightarrow> prompt_user_for_category st description amount w evs
               | Some n \<Rightarrow>
                   (let choice_idx = n - 1
                    in if 0 \<le> choice_idx \<and> choice_idx < int (length AVAILABLE_CATEGORIES)
                       then (let selected_category = AVAILABLE_CATEGORIES ! nat choice_idx;
                                 key_term = extract_key_term_for_config description
                             in case update_config_with_new_keyword st selected_category key_term w of
                                  Inl e \<Rightarrow> (Inl e, st, evs)
                                | Inr st' \<Rightarrow> (Inr selected_category, st', evs))
                       else prompt_user_for_category st description amount w evs)))"

text \<open>
  The category that a typed line selects, if it selects one: the tests that the body of
  the \<open>try\<close> makes on the line, on their own, for stating what the loop does.
\<close>

definition selection :: "string \<Rightarrow> string option" where
  "selection l =
     (let choice = str_strip l
      in if choice = [] then None
         else (case py_int choice of
                 None \<Rightarrow> None
               | Some n \<Rightarrow>
                   if 0 \<le> n - 1 \<and> n - 1 < int (length AVAILABLE_CATEGORIES)
                   then Some (AVAILABLE_CATEGORIES ! nat (n - 1)) else None))"

subsection \<open>\<open>categorize_transaction_with_amount\<close>\<close>

text \<open>
  The loop over \<open>categories.items()\<close>: the first category, in the stored order, one of
  whose keywords, in lower case, occurs in \<open>desc_lower\<close>.
\<close>

fun match_category :: "(string \<times> string list) list \<Rightarrow> string \<Rightarrow> string option" where
  "match_category [] desc_lower = None"
| "match_category ((category, keywords) # rest) desc_lower =
     (if list_ex (\<lambda>keyword. str_in (str_lower keyword) desc_lower) keywords
      then Some category else match_category rest desc_lower)"

definition categorize_transaction_with_amount ::
  "analyzer \<Rightarrow> string \<Rightarrow> pyfloat \<Rightarrow> write_outcome \<Rightarrow> event list
     \<Rightarrow> (error + string) \<times> analyzer \<times> event list" where
  "categorize_transaction_with_amount st description amount w evs =
     (let desc_lower = str_lower description
      in if prefix ''costco-'' desc_lower \<and> fl_gt amount 100 then (Inr ''Shopping'', st, evs)
         else (case match_category (categories (categorization_config st)) desc_lower of
                 Some category \<Rightarrow> (Inr category, st, evs)
               | None \<Rightarrow> prompt_user_for_category st description amount w evs))"

text \<open>
  Two states for stating what the learning step does on an example: the analyzer that
  \<open>__init__\<close> builds when the rule file does not exist, and the analyzer after it has
  learned the keyword \<open>foo bar\<close> for \<open>Shopping\<close> and written the rule file.
\<close>

definition fresh_analyzer :: analyzer where
  "fresh_analyzer = \<lparr>categorization_config = default_config, config_file = None\<rparr>"

definition foo_bar_config :: config where
  "foo_bar_config =
     \<lparr>categories =
        [(''Food'', [''restaurant'', ''cafe'', ''food'']),
         (''Transportation'', [''uber'', ''lyft'', ''gas'', ''parking'']),
         (''Shopping'', [''amazon'', ''store'', ''foo bar'']),
         (''Other'', [])],
      default_category = Some ''Other''\<rparr>"

definition foo_bar_analyzer :: analyzer where
  "foo_bar_analyzer =
     \<lparr>categorization_config = foo_bar_config, config_file = Some foo_bar_config\<rparr>"

section \<open>The merchant normalizer\<close>

text \<open>
  The chain of \<open>if\<close>/\<open>elif\<close> tests on \<open>desc_lower\<close> for the known merchants, in the
  order of the source; \<open>None\<close> is the final \<open>else\<close>.
\<close>

definition known_merchant :: "string \<Rightarrow> string option" where
  "known_merchant desc_lower =
    (if str_in ''tesla'' desc_lower \<and>
        (str_in ''supercharger'' desc_lower \<or> str_in ''charge'' desc_lower)
     then Some ''TESLA Charging''
     else if str_in ''blink charging'' desc_lower \<or> str_in ''blink'' desc_lower
     then Some ''Blink Charging''
     else if str_in ''amazon'' desc_lower then Some ''AMAZON''
     else if str_in ''starbucks'' desc_lower then Some ''STARBUCKS''
     else if str_in ''delta'' desc_lower \<and> str_in ''air'' desc_lower then Some ''DELTA Airlines''
     else if str_in ''uber'' desc_lower then Some ''UBER''
     else if str_in ''lyft'' desc_lower then Some ''LYFT''
     else if str_in ''safeway'' desc_lower then Some ''SAFEWAY''
     else if str_in ''qfc'' desc_lower then Some ''QFC''
     else if str_in ''at&t'' desc_lower then Some ''AT&T''
     else if str_in ''t&t'' desc_lower \<and> str_in ''supermarket'' desc_lower
     then Some ''T&T Supermarket''
     else if str_in ''puget sound energy'' desc_lower then Some ''Puget Sound''
     else if str_in ''progressive'' desc_lower \<and> str_in ''insurance'' desc_lower
     then Some ''Progressive Insurance''
     else if str_in ''rei'' desc_lower \<and>
             (str_in ''rei '' desc_lower \<or> str_in ''rei.com'' desc_lower)
     then Some ''REI''
     else if str_in ''best buy'' desc_lower then Some ''Best Buy''
     else if str_in ''target'' desc_lower then Some ''Target''
     else if str_in ''home depot'' desc_lower then Some ''Home Depot''
     else if str_in ''ikea'' desc_lower then Some ''IKEA''
     else if str_in ''uscis'' desc_lower then Some ''USCIS''
     else if str_in ''us treas'' desc_lower \<and>
             (str_in ''tax'' desc_lower \<or> str_in ''pymt'' desc_lower)
     then Some ''US Treasury''
     else if str_in ''autopay'' desc_lower \<or> str_in ''payment'' desc_lower then Some ''Payment''
     else if str_in ''walgreens'' desc_lower then Some ''WALGREENS''
     else if str_in ''cvs'' desc_lower then Some ''CVS''
     else if str_in ''shell'' desc_lower then Some ''SHELL''
     else if str_in ''chevron'' desc_lower then Some ''CHEVRON''
     else if str_in ''arco'' desc_lower then Some ''ARCO''
     else if str_in ''mcdonald'' desc_lower then Some ''McDonalds''
     else if str_in ''subway'' desc_lower then Some ''SUBWAY''
     else if str_in ''trader joe'' desc_lower then Some ''Trader Joes''
     else if str_in ''whole foods'' desc_lower then Some ''Whole Foods''
     else if str_in ''walmart'' desc_lower \<or> str_in ''wm supercenter'' desc_lower
     then Some ''WALMART''
     else if str_in ''fred meyer'' desc_lower \<or> str_in ''fred-meyer'' desc_lower
     then Some ''Fred Meyer''
     else if str_in ''goodwill'' desc_lower then Some ''GOODWILL''
     else if str_in ''netflix'' desc_lower then Some ''NETFLIX''
     else if str_in ''spotify'' desc_lower then Some ''SPOTIFY''
     else if str_in ''apple'' desc_lower \<and>
             (str_in ''store'' desc_lower \<or> str_in ''itunes'' desc_lower)
     then Some ''Apple Store''
     else if str_in ''google'' desc_lower then Some ''GOOGLE''
     else if str_in ''microsoft'' desc_lower then Some ''MICROSOFT''
     else if str_in ''too good to go'' desc_lower then Some ''Too Good''
     else if str_in ''summit'' desc_lower \<and> str_in ''snoqualmie'' desc_lower
     then Some ''Summit Snoqualmie''
     else if str_in ''claire'' desc_lower then Some ''CLAIRE''
     else if str_in ''ten seconds'' desc_lower then Some ''Ten Seconds''
     else if str_in ''legoland'' desc_lower then Some ''LEGOLAND''
     else if str_in ''dough zone'' desc_lower then Some ''Dough Zone''
     else if str_in ''pay by phone'' desc_lower \<or> str_in ''paybyphone'' desc_lower
     then Some ''Parking''
     else if str_in ''spokane'' desc_lower
     then (if str_in ''hotel'' desc_lower \<or> str_in ''club'' desc_lower
           then Some ''Spokane Club''
           else if str_in ''restaurant'' desc_lower \<or> str_in ''kitchen'' desc_lower
           then Some ''Spokane Restaurant''
           else Some ''Spokane Business'')
     else None)"

text \<open>
  The loop over \<open>prefixes_to_remove\<close> of the final \<open>else\<close>: it has no \<open>break\<close>, so
  every prefix of the list is tried once, in order, on what the earlier ones left.
\<close>

fun remove_prefixes :: "string list \<Rightarrow> string \<Rightarrow> string" where
  "remove_prefixes [] clean_desc = clean_desc"
| "remove_prefixes (p # ps) clean_desc =
     remove_prefixes ps
       (if prefix p clean_desc then str_strip (drop (length p) clean_desc) else clean_desc)"

definition location_words :: "string list" where
  "location_words =
     [''phone'', ''number:'', ''folio'', ''arrive:'', ''depart:'', ''www'', ''com'', ''ecom'']"

text \<open>The loop over \<open>words\<close>; the second argument is \<open>clean_words\<close>.\<close>

fun collect_clean :: "string list \<Rightarrow> string list \<Rightarrow> string list" where
  "collect_clean [] clean_words = clean_words"
| "collect_clean (word # ws) clean_words =
     (if list_ex is_digit_char word \<and> list_ex (\<lambda>ch. str_in ch word) [''-'', ''.'', ''/'']
      then collect_clean ws clean_words
      else if length word = 2 \<and> str_isupper word then collect_clean ws clean_words
      else if str_lower word \<in> set location_words then collect_clean ws clean_words
      else (let clean_words' =
                  (if length word > 1 then clean_words @ [str_title word] else clean_words)
            in if length clean_words' \<ge> 2 then clean_words'
               else collect_clean ws clean_words'))"

definition extract_merchant_name :: "string \<Rightarrow> string" where
  "extract_merchant_name raw_description =
     (case known_merchant (str_lower raw_description) of
        Some name \<Rightarrow> name
      | None \<Rightarrow>
          (let clean_desc =
                 remove_prefixes [''SQ *'', ''TST*'', ''SP '', ''FSP*'', ''6602-'']
                   (str_strip raw_description);
               words = str_split clean_desc;
               clean_words = collect_clean words []
           in if clean_words \<noteq> [] then join_space (take 2 clean_words)
              else (let first_word = (case words of w # _ \<Rightarrow> w | [] \<Rightarrow> raw_description)
                    in take 15 (str_title first_word))))"

text \<open>
  Two notions for counting the words of a name: a string without white space, and a
  string that \<open>str.split()\<close> cuts into at most two words.
\<close>

definition no_space :: "string \<Rightarrow> bool" where
  "no_space w = (\<forall>c \<in> set w. \<not> is_space_char c)"

definition two_words :: "string \<Rightarrow> bool" where
  "two_words n = (length (str_split n) \<le> 2)"

section \<open>The source adapters\<close>

text \<open>
  A cell of a data frame is a string, a number (\<open>nan\<close> for an empty field) or a
  timestamp, which is kept as the text that \<open>str\<close> gives for it. A row maps column
  names to cells, in the order of the columns; a frame is its column names and its rows.
\<close>

datatype cell = Text string | Num pyfloat | Timestamp string

type_synonym row = "(string \<times> cell) list"

record dataframe =
  columns :: "string list"
  rows :: "row list"

text \<open>
  The conversions of Python and pandas that the adapters call are parameters of the
  model: \<open>float(s)\<close> for a string (\<open>None\<close> is the \<open>ValueError\<close>), \<open>str(x)\<close> for a
  number that is not \<open>nan\<close>, and \<open>pd.to_datetime\<close> on one cell (\<open>None\<close> when it raises).
\<close>

record conversions =
  parse_float :: "string \<Rightarrow> pyfloat option"
  float_str :: "real \<Rightarrow> string"
  to_datetime :: "cell \<Rightarrow> cell option"

fun py_str :: "conversions \<Rightarrow> cell \<Rightarrow> string" where
  "py_str cv (Text s) = s"
| "py_str cv (Num (Fl x)) = float_str cv x"
| "py_str cv (Num NaN) = ''nan''"
| "py_str cv (Timestamp s) = s"

text \<open>\<open>float(v)\<close> for a cell.\<close>

fun py_float :: "conversions \<Rightarrow> cell \<Rightarrow> error + pyfloat" where
  "py_float cv (Text s) = (case parse_float cv s of None \<Rightarrow> Inl ValueError | Some f \<Rightarrow> Inr f)"
| "py_float cv (Num f) = Inr f"
| "py_float cv (Timestamp s) = Inl TypeError"

text \<open>\<open>row[name]\<close>, which raises \<open>KeyError\<close> for a label that the row does not have.\<close>

definition row_get :: "row \<Rightarrow> string option \<Rightarrow> error + cell" where
  "row_get r name =
     (case name of
        None \<Rightarrow> Inl KeyError
      | Some n \<Rightarrow> (case map_of r n of None \<Rightarrow> Inl KeyError | Some v \<Rightarrow> Inr v))"

text \<open>Running a function that may raise over a list: the first exception ends the run.\<close>

fun map_raise :: "('a \<Rightarrow> error + 'b) \<Rightarrow> 'a list \<Rightarrow> error + 'b list" where
  "map_raise f [] = Inr []"
| "map_raise f (x # xs) =
     (case f x of
        Inl e \<Rightarrow> Inl e
      | Inr y \<Rightarrow> (case map_raise f xs of Inl e \<Rightarrow> Inl e | Inr ys \<Rightarrow> Inr (y # ys)))"

text \<open>\<open>df[name]\<close>, the cells of one column, and \<open>df[name] = values\<close>.\<close>

definition get_column :: "dataframe \<Rightarrow> string \<Rightarrow> error + cell list" where
  "get_column df name =
     (if name \<notin> set (columns df) then Inl KeyError
      else map_raise (\<lambda>r. row_get r (Some name)) (rows df))"

definition set_column :: "dataframe \<Rightarrow> string \<Rightarrow> cell list \<Rightarrow> dataframe" where
  "set_column df name vals =
     \<lparr>columns = (if name \<in> set (columns df) then columns df else columns df @ [name]),
      rows = map (\<lambda>(r, v). AList.update name v r) (zip (rows df) vals)\<rparr>"

text \<open>
  The processor classes. An instance is its class, which decides the methods that are
  overridden, and the values of the class attributes.
\<close>

datatype processor_class =
  CSVProcessor | CitiCSVProcessor | SmartlyCSVProcessor | CostcoCSVProcessor

record processor =
  processor_class :: processor_class
  date_column_name :: "string option"
  description_column_name :: "string option"
  amount_column_name :: "string option"
  amount_multiplier :: real
  skip_patterns :: "string list"

definition citi :: processor where
  "citi = \<lparr>processor_class = CitiCSVProcessor, date_column_name = Some ''Date'',
           description_column_name = Some ''Description'', amount_column_name = Some ''Amount'',
           amount_multiplier = 1, skip_patterns = [''costco'']\<rparr>"

definition smartly :: processor where
  "smartly = \<lparr>processor_class = SmartlyCSVProcessor, date_column_name = Some ''Date'',
              description_column_name = Some ''Name'', amount_column_name = Some ''Amount'',
              amount_multiplier = - 1, skip_patterns = [''costco'']\<rparr>"

definition costco :: processor where
  "costco = \<lparr>processor_class = CostcoCSVProcessor, date_column_name = Some ''date'',
             description_column_name = Some ''description'', amount_column_name = Some ''amount'',
             amount_multiplier = 1, skip_patterns = []\<rparr>"

text \<open>The truth value of an attribute that is \<open>None\<close> or a string.\<close>

fun truthy :: "string option \<Rightarrow> bool" where
  "truthy None = False"
| "truthy (Some n) = (n \<noteq> [])"

text \<open>\<open>fillna(0)\<close> on one cell, and \<open>fillna(0).astype(float)\<close> on a column.\<close>

fun fillna0 :: "cell \<Rightarrow> cell" where
  "fillna0 (Num NaN) = Num (Fl 0)"
| "fillna0 v = v"

definition filled_floats :: "conversions \<Rightarrow> cell list \<Rightarrow> error + pyfloat list" where
  "filled_floats cv vals = map_raise (\<lambda>v. py_float cv (fillna0 v)) vals"

text \<open>
  \<open>_consolidate_columns\<close>: the base class returns the frame as it is, and
  \<open>CitiCSVProcessor\<close> adds the column \<open>Amount\<close>, the sum of \<open>Debit\<close> and \<open>Credit\<close>.
\<close>

definition consolidate_columns :: "conversions \<Rightarrow> processor \<Rightarrow> dataframe \<Rightarrow> error + dataframe" where
  "consolidate_columns cv p df =
     (if processor_class p = CitiCSVProcessor
      then (case get_column df ''Debit'' of
              Inl e \<Rightarrow> Inl e
            | Inr debit \<Rightarrow>
                (case filled_floats cv debit of
                   Inl e \<Rightarrow> Inl e
                 | Inr ds \<Rightarrow>
                     (case get_column df ''Credit'' of
                        Inl e \<Rightarrow> Inl e
                      | Inr credit \<Rightarrow>
                          (case filled_floats cv credit of
                             Inl e \<Rightarrow> Inl e
                           | Inr cs \<Rightarrow>
                               Inr (set_column df ''Amount''
                                      (map (\<lambda>(d, c). Num (fl_add d c)) (zip ds cs)))))))
      else Inr df)"

text \<open>\<open>_prepare_dataframe\<close>\<close>

definition prepare_dataframe :: "conversions \<Rightarrow> processor \<Rightarrow> dataframe \<Rightarrow> error + dataframe" where
  "prepare_dataframe cv p df =
     (case date_column_name p of
        Some d \<Rightarrow>
          (if d \<noteq> [] \<and> d \<in> set (columns df)
           then (case get_column df d of
                   Inl e \<Rightarrow> Inl e
                 | Inr vals \<Rightarrow>
                     (case map_raise (\<lambda>v. case to_datetime cv v of
                                             None \<Rightarrow> Inl ValueError | Some t \<Rightarrow> Inr t) vals of
                        Inl e \<Rightarrow> Inl e
                      | Inr ts \<Rightarrow> consolidate_columns cv p (set_column df d ts)))
           else consolidate_columns cv p df)
      | None \<Rightarrow> consolidate_columns cv p df)"

text \<open>
  The transaction that an adapter returns for a row: the dictionary with the keys
  \<open>date\<close>, \<open>description\<close> and \<open>amount\<close>.
\<close>

record transaction =
  date :: cell
  description :: cell
  amount :: pyfloat

text \<open>
  \<open>_extract_transaction_data\<close>: \<open>CostcoCSVProcessor\<close> puts \<open>COSTCO-\<close> before the
  description; the other classes use the three columns when all three are named, and
  raise \<open>NotImplementedError\<close> otherwise. \<open>Inr None\<close> stands for a returned \<open>None\<close>.
\<close>

definition extract_transaction_data ::
  "conversions \<Rightarrow> processor \<Rightarrow> row \<Rightarrow> error + transaction option" where
  "extract_transaction_data cv p r =
     (if processor_class p = CostcoCSVProcessor
      then (case row_get r (date_column_name p) of
              Inl e \<Rightarrow> Inl e
            | Inr d \<Rightarrow>
                (case row_get r (description_column_name p) of
                   Inl e \<Rightarrow> Inl e
                 | Inr ds \<Rightarrow>
                     (case row_get r (amount_column_name p) of
                        Inl e \<Rightarrow> Inl e
                      | Inr a \<Rightarrow>
                          (case py_float cv a of
                             Inl e \<Rightarrow> Inl e
                           | Inr x \<Rightarrow>
                               Inr (Some \<lparr>date = d, description = Text (''COSTCO-'' @ py_str cv ds),
                                          amount = fl_mul x (amount_multiplier p)\<rparr>)))))
      else if truthy (date_column_name p) \<and> truthy (description_column_name p)
              \<and> truthy (amount_column_name p)
      then (case row_get r (date_column_name p) of
              Inl e \<Rightarrow> Inl e
            | Inr d \<Rightarrow>
                (case row_get r (description_column_name p) of
                   Inl e \<Rightarrow> Inl e
                 | Inr ds \<Rightarrow>
                     (case row_get r (amount_column_name p) of
                        Inl e \<Rightarrow> Inl e
                      | Inr a \<Rightarrow>
                          (case py_float cv a of
                             Inl e \<Rightarrow> Inl e
                           | Inr x \<Rightarrow>
                               Inr (Some \<lparr>date = d, description = ds,
                                          amount = fl_mul x (amount_multiplier p)\<rparr>)))))
      else Inl NotImplementedError)"

text \<open>\<open>_should_skip_transaction\<close>\<close>

definition should_skip_transaction :: "conversions \<Rightarrow> processor \<Rightarrow> row \<Rightarrow> bool" where
  "should_skip_transaction cv p r =
     (if skip_patterns p = [] \<or> \<not> truthy (description_column_name p) then False
      else (case description_column_name p of
              None \<Rightarrow> False
            | Some n \<Rightarrow>
                (case map_of r n of
                   Some v \<Rightarrow>
                     (let description = str_lower (py_str cv v)
                      in list_ex (\<lambda>pattern. str_in (str_lower pattern) description)
                           (skip_patterns p))
                 | None \<Rightarrow> False)))"

text \<open>
  \<open>process\<close>: the loop over the rows of the prepared frame, with the list \<open>processed\<close>
  as second argument, and the whole method. The frame is the one that \<open>pd.read_csv\<close>
  returned for the file.
\<close>

fun process_rows ::
  "conversions \<Rightarrow> processor \<Rightarrow> row list \<Rightarrow> transaction list \<Rightarrow> error + transaction list" where
  "process_rows cv p [] processed = Inr processed"
| "process_rows cv p (r # rest) processed =
     (if should_skip_transaction cv p r then process_rows cv p rest processed
      else (case extract_transaction_data cv p r of
              Inl e \<Rightarrow> Inl e
            | Inr None \<Rightarrow> process_rows cv p rest processed
            | Inr (Some transaction_data) \<Rightarrow>
                process_rows cv p rest (processed @ [transaction_data])))"

definition process :: "conversions \<Rightarrow> processor \<Rightarrow> dataframe \<Rightarrow> error + transaction list" where
  "process cv p df =
     (case prepare_dataframe cv p df of
        Inl e \<Rightarrow> Inl e
      | Inr df' \<Rightarrow> process_rows cv p (rows df') [])"

text \<open>
  The amount that the specification gives for a row of the source with two columns:
  \<open>Debit\<close> plus \<open>Credit\<close>, where a missing value counts as 0. It is defined from the
  specification's words, to be compared with what \<open>consolidate_columns\<close> computes.
\<close>

fun nan_to_zero :: "pyfloat \<Rightarrow> real" where
  "nan_to_zero (Fl x) = x"
| "nan_to_zero NaN = 0"

definition spec_consolidated_amount :: "row \<Rightarrow> cell option" where
  "spec_consolidated_amount r =
     (case (map_of r ''Debit'', map_of r ''Credit'') of
        (Some (Num d), Some (Num c)) \<Rightarrow> Some (Num (Fl (nan_to_zero d + nan_to_zero c)))
      | _ \<Rightarrow> None)"

text \<open>
  A sample input for the Citi adapter: the row of the specification's scenario, a row
  of a Costco purchase, which the adapter is configured to skip, and a payment. The
  sample conversions read no string as a number and turn a text into a timestamp.
\<close>

definition sample_conversions :: conversions where
  "sample_conversions =
     \<lparr>parse_float = (\<lambda>s. None), float_str = (\<lambda>x. ''0.0''),
      to_datetime = (\<lambda>v. case v of Text s \<Rightarrow> Some (Timestamp s) | _ \<Rightarrow> None)\<rparr>"

definition sample_frame :: dataframe where
  "sample_frame =
     \<lparr>columns = [''Date'', ''Description'', ''Debit'', ''Credit''],
      rows =
        [[(''Date'', Text ''2025-03-01''), (''Description'', Text ''TST* Dough Zone 2xxx''),
          (''Debit'', Num (Fl 32.5)), (''Credit'', Num NaN)],
         [(''Date'', Text ''2025-03-02''), (''Description'', Text ''COSTCO WHSE #0001''),
          (''Debit'', Num (Fl 210)), (''Credit'', Num NaN)],
         [(''Date'', Text ''2025-03-03''), (''Description'', Text ''ONLINE PAYMENT''),
          (''Debit'', Num NaN), (''Credit'', Num (Fl (- 100)))]]\<rparr>"


section \<open>Properties of the string operations\<close>

lemma str_in_sublist: "str_in k s = sublist k s"
  by (induction s) (simp_all add: sublist_Cons_right)

lemma str_in_iff: "str_in k s \<longleftrightarrow> (\<exists>pre post. s = pre @ k @ post)"
  by (simp add: str_in_sublist sublist_def)

text \<open>
  The test \<open>k.lower() in s.lower()\<close> says that \<open>k\<close> is a substring of \<open>s\<close> up to the
  case of the letters: some substring of \<open>s\<close> has the same lower-case form as \<open>k\<close>.
\<close>

lemma str_in_lower_iff:
  "str_in (str_lower k) (str_lower s) \<longleftrightarrow>
     (\<exists>pre mid post. s = pre @ mid @ post \<and> str_lower mid = str_lower k)"
proof
  assume "str_in (str_lower k) (str_lower s)"
  then obtain a b where "map lower_char s = a @ (map lower_char k @ b)"
    by (auto simp: str_in_iff str_lower_def)
  then obtain pre rest where s: "s = pre @ rest"
    and rest: "map lower_char rest = map lower_char k @ b"
    by (metis map_eq_append_conv)
  from rest obtain mid post where "rest = mid @ post" and "map lower_char mid = map lower_char k"
    by (metis map_eq_append_conv)
  with s show "\<exists>pre mid post. s = pre @ mid @ post \<and> str_lower mid = str_lower k"
    by (auto simp: str_lower_def)
next
  assume "\<exists>pre mid post. s = pre @ mid @ post \<and> str_lower mid = str_lower k"
  then obtain pre mid post where "s = pre @ mid @ post" and "str_lower mid = str_lower k"
    by blast
  then have "str_lower s = str_lower pre @ str_lower k @ str_lower post"
    by (simp add: str_lower_def)
  then show "str_in (str_lower k) (str_lower s)"
    unfolding str_in_iff by blast
qed

text \<open>The same for \<open>s.lower().startswith(p)\<close> with a prefix that is in lower case.\<close>

lemma prefix_lower_iff:
  "prefix p (str_lower s) \<longleftrightarrow> (\<exists>tag rest. s = tag @ rest \<and> str_lower tag = p)"
  by (auto simp: prefix_def str_lower_def map_eq_append_conv)

section \<open>Properties of the rule set\<close>

lemma update_absent: "k \<notin> fst ` set al \<Longrightarrow> AList.update k v al = al @ [(k, v)]"
  by (induction al) auto

lemma keywords_of_update: "keywords_of (AList.update k v al) k = v"
  by (simp add: keywords_of_def update_conv')

lemma keywords_of_absent: "k \<notin> fst ` set al \<Longrightarrow> keywords_of al k = []"
  by (simp add: keywords_of_def map_of_eq_None_iff[THEN iffD2])

lemma add_keyword_present:
  "keyword \<in> set (keywords_of (categories (add_keyword c category keyword)) category)"
  by (simp add: add_keyword_def Let_def keywords_of_update)

lemma add_keyword_in_dom: "category \<in> fst ` set (categories (add_keyword c category keyword))"
  by (simp add: add_keyword_def Let_def dom_update)

lemma add_keyword_fixed:
  assumes "category \<in> fst ` set (categories c)"
    and "keyword \<in> set (keywords_of (categories c) category)"
  shows "add_keyword c category keyword = c"
  using assms by (simp add: add_keyword_def Let_def)

lemma add_keyword_idem:
  "add_keyword (add_keyword c category keyword) category keyword = add_keyword c category keyword"
  by (rule add_keyword_fixed[OF add_keyword_in_dom add_keyword_present])

lemma add_keyword_new:
  assumes "category \<notin> fst ` set (categories c)"
  shows "categories (add_keyword c category keyword) = categories c @ [(category, [keyword])]"
proof -
  have "categories (add_keyword c category keyword) =
          AList.update category [keyword] (AList.update category [] (categories c))"
    using assms by (simp add: add_keyword_def Let_def keywords_of_update)
  also have "\<dots> = AList.update category [keyword] (categories c)"
    by (rule update_last)
  also have "\<dots> = categories c @ [(category, [keyword])]"
    using assms by (rule update_absent)
  finally show ?thesis .
qed

lemma add_keyword_keywords:
  "keywords_of (categories (add_keyword c category keyword)) category =
     (if keyword \<in> set (keywords_of (categories c) category)
      then keywords_of (categories c) category
      else keywords_of (categories c) category @ [keyword])"
proof (cases "category \<in> fst ` set (categories c)")
  case True
  then show ?thesis by (simp add: add_keyword_def Let_def keywords_of_update)
next
  case False
  have "keywords_of (AList.update category [keyword] (categories c)) category = [keyword]"
    by (rule keywords_of_update)
  with False show ?thesis
    by (simp add: add_keyword_new keywords_of_absent update_absent)
qed

lemma add_keyword_default:
  "default_category (add_keyword c category keyword) = default_category c"
  by (simp add: add_keyword_def Let_def)

lemma update_config_eq:
  "update_config_with_new_keyword st category keyword w =
     Inr \<lparr>categorization_config = add_keyword (categorization_config st) category keyword,
          config_file = snd (dump_config w (add_keyword (categorization_config st) category keyword)
                               (config_file st))\<rparr>"
  by (cases w) (simp_all add: update_config_with_new_keyword_def Let_def)

section \<open>Properties of the matching loop\<close>

lemma match_category_None_iff:
  "match_category cats d = None \<longleftrightarrow>
     (\<forall>(c, ks) \<in> set cats. \<forall>k \<in> set ks. \<not> str_in (str_lower k) d)"
  by (induction cats d rule: match_category.induct) (auto simp: list_ex_iff)

lemma match_category_first:
  assumes "\<forall>(c, ks) \<in> set before. \<forall>k \<in> set ks. \<not> str_in (str_lower k) d"
    and "k \<in> set keywords" and "str_in (str_lower k) d"
  shows "match_category (before @ (category, keywords) # after) d = Some category"
  using assms by (induction before) (auto simp: list_ex_iff)

lemma match_category_update:
  assumes "match_category cats d = None" and "c \<in> fst ` set cats"
    and "k \<in> set v" and "str_in (str_lower k) d"
  shows "match_category (AList.update c v cats) d = Some c"
  using assms
proof (induction cats)
  case Nil
  then show ?case by simp
next
  case (Cons p cats)
  obtain c' ks where p: "p = (c', ks)" by (cases p)
  show ?case
  proof (cases "c' = c")
    case True
    with Cons.prems p show ?thesis by (auto simp: list_ex_iff)
  next
    case False
    with Cons p show ?thesis by (auto simp: list_ex_iff split: if_splits)
  qed
qed

lemma match_category_learned:
  assumes none: "match_category (categories c) d = None" and sub: "str_in (str_lower keyword) d"
  shows "match_category (categories (add_keyword c category keyword)) d = Some category"
proof (cases "category \<in> fst ` set (categories c)")
  case False
  from none have "\<forall>(c', ks) \<in> set (categories c). \<forall>k \<in> set ks. \<not> str_in (str_lower k) d"
    by (simp add: match_category_None_iff)
  then have "match_category (categories c @ (category, [keyword]) # []) d = Some category"
    using sub by (intro match_category_first[where k = keyword]) simp_all
  with False show ?thesis by (simp add: add_keyword_new)
next
  case True
  then obtain ks where ks: "map_of (categories c) category = Some ks"
    by (metis map_of_eq_None_iff not_None_eq)
  then have "(category, ks) \<in> set (categories c)" by (rule map_of_SomeD)
  with none sub have notin: "keyword \<notin> set ks"
    by (auto simp: match_category_None_iff)
  from ks have kw: "keywords_of (categories c) category = ks" by (simp add: keywords_of_def)
  from True notin kw have "categories (add_keyword c category keyword) =
      AList.update category (ks @ [keyword]) (categories c)"
    by (simp add: add_keyword_def Let_def)
  moreover have "match_category (AList.update category (ks @ [keyword]) (categories c)) d = Some category"
    using none True _ sub by (rule match_category_update) simp
  ultimately show ?thesis by simp
qed

lemma match_category_keyword:
  assumes "category \<in> fst ` set cats" and "k \<in> set (keywords_of cats category)"
    and "str_in (str_lower k) d"
  shows "match_category cats d \<noteq> None"
proof -
  from assms(2) obtain ks where "map_of cats category = Some ks" and "k \<in> set ks"
    by (cases "map_of cats category") (simp_all add: keywords_of_def)
  then have "(category, ks) \<in> set cats" by (auto dest: map_of_SomeD)
  with \<open>k \<in> set ks\<close> assms(3) show ?thesis
    by (auto simp: match_category_None_iff)
qed

section \<open>Properties of the prompt\<close>

lemma prompt_Line:
  "prompt_user_for_category st merchant_name amt w (Line l # evs) =
     (case selection l of
        None \<Rightarrow> prompt_user_for_category st merchant_name amt w evs
      | Some category \<Rightarrow>
          (Inr category,
           \<lparr>categorization_config =
              add_keyword (categorization_config st) category (extract_key_term_for_config merchant_name),
            config_file =
              snd (dump_config w
                     (add_keyword (categorization_config st) category
                        (extract_key_term_for_config merchant_name))
                     (config_file st))\<rparr>,
           evs))"
  by (simp add: selection_def Let_def update_config_eq split: option.splits)

declare prompt_user_for_category.simps(3) [simp del]

lemma prompt_invalid_lines:
  assumes "\<forall>l \<in> set ls. selection l = None"
  shows "prompt_user_for_category st merchant_name amt w (map Line ls @ evs) =
         prompt_user_for_category st merchant_name amt w evs"
  using assms by (induction ls) (simp_all add: prompt_Line)

text \<open>
  Whenever the prompt runs, it reads from the input: it ends with \<open>EOFError\<close> or it has
  consumed at least one event. So a call of the classifier that returns a category and
  leaves every event in place has not run the prompt.
\<close>

lemma prompt_consumes:
  "prompt_user_for_category st merchant_name amt w evs = (r, st', evs') \<Longrightarrow>
     r = Inl EOFError \<or> length evs' < length evs"
proof (induction evs)
  case Nil
  then show ?case by simp
next
  case (Cons ev evs)
  show ?case
  proof (cases ev)
    case KeyboardInterrupt
    with Cons.prems show ?thesis by auto
  next
    case (Line l)
    with Cons show ?thesis
      by (cases "selection l") (auto simp: prompt_Line)
  qed
qed

section \<open>The learning step\<close>

lemma set_update_subset: "set (AList.update k v al) \<subseteq> insert (k, v) (set al)"
  by (induction al) auto

lemma keywords_of_entry:
  assumes "k \<in> set (keywords_of al c)"
  obtains ks where "(c, ks) \<in> set al" and "k \<in> set ks"
proof (cases "map_of al c")
  case None
  with assms show ?thesis by (simp add: keywords_of_def)
next
  case (Some ks)
  with assms have "k \<in> set ks" by (simp add: keywords_of_def)
  moreover from Some have "(c, ks) \<in> set al" by (rule map_of_SomeD)
  ultimately show ?thesis by (rule that[rotated])
qed

text \<open>
  A keyword of the rule set after \<open>add_keyword\<close> is the new keyword or a keyword that
  the rule set had before.
\<close>

lemma add_keyword_entries:
  assumes "(c', ks) \<in> set (categories (add_keyword c category keyword))" and "k \<in> set ks"
  shows "k = keyword \<or> (\<exists>c'' ks'. (c'', ks') \<in> set (categories c) \<and> k \<in> set ks')"
proof (cases "category \<in> fst ` set (categories c)")
  case False
  with assms show ?thesis by (auto simp: add_keyword_new)
next
  case True
  show ?thesis
  proof (cases "keyword \<in> set (keywords_of (categories c) category)")
    case present: True
    with True have "add_keyword c category keyword = c" by (rule add_keyword_fixed)
    with assms show ?thesis by auto
  next
    case absent: False
    from True absent have "categories (add_keyword c category keyword) =
        AList.update category (keywords_of (categories c) category @ [keyword]) (categories c)"
      by (simp add: add_keyword_def Let_def)
    with assms(1) have "(c', ks) = (category, keywords_of (categories c) category @ [keyword])
                        \<or> (c', ks) \<in> set (categories c)"
      using set_update_subset by fastforce
    then show ?thesis
    proof
      assume "(c', ks) \<in> set (categories c)"
      with assms(2) show ?thesis by blast
    next
      assume "(c', ks) = (category, keywords_of (categories c) category @ [keyword])"
      with assms(2) have "k = keyword \<or> k \<in> set (keywords_of (categories c) category)" by auto
      then show ?thesis
      proof
        assume "k = keyword"
        then show ?thesis by simp
      next
        assume "k \<in> set (keywords_of (categories c) category)"
        then obtain ks' where "(category, ks') \<in> set (categories c)" and "k \<in> set ks'"
          by (rule keywords_of_entry)
        then show ?thesis by blast
      qed
    qed
  qed
qed

lemma match_category_not_learned:
  assumes "match_category (categories c) d = None" and "\<not> str_in (str_lower keyword) d"
  shows "match_category (categories (add_keyword c category keyword)) d = None"
proof -
  have "\<not> str_in (str_lower k) d"
    if "(c', ks) \<in> set (categories (add_keyword c category keyword))" and "k \<in> set ks"
    for c' ks k
  proof -
    from that have "k = keyword \<or> (\<exists>c'' ks'. (c'', ks') \<in> set (categories c) \<and> k \<in> set ks')"
      by (rule add_keyword_entries)
    then show ?thesis
      using assms by (auto simp: match_category_None_iff)
  qed
  then show ?thesis by (auto simp: match_category_None_iff)
qed

text \<open>
  What the first call does when the name reaches the prompt and a typed line selects a
  category, after any number of lines that select nothing: it returns the category, the
  derived keyword is in the category's list, added at the end when it was not there,
  and the file holds the new rule set when the write succeeds.
\<close>

lemma learning_step:
  assumes "\<not> (prefix ''costco-'' (str_lower merchant_name) \<and> fl_gt amt 100)"
    and "match_category (categories (categorization_config st)) (str_lower merchant_name) = None"
    and "\<forall>l \<in> set invalid. selection l = None"
    and "selection chosen = Some category"
  shows "\<exists>st'. categorize_transaction_with_amount st merchant_name amt w
                 (map Line invalid @ Line chosen # evs) = (Inr category, st', evs) \<and>
           categorization_config st' =
             add_keyword (categorization_config st) category
               (extract_key_term_for_config merchant_name) \<and>
           keywords_of (categories (categorization_config st')) category =
             (if extract_key_term_for_config merchant_name
                   \<in> set (keywords_of (categories (categorization_config st)) category)
              then keywords_of (categories (categorization_config st)) category
              else keywords_of (categories (categorization_config st)) category
                     @ [extract_key_term_for_config merchant_name]) \<and>
           (w = WriteOk \<longrightarrow> config_file st' = Some (categorization_config st'))"
proof -
  define key where "key = extract_key_term_for_config merchant_name"
  define c' where "c' = add_keyword (categorization_config st) category key"
  define st' where
    "st' = \<lparr>categorization_config = c', config_file = snd (dump_config w c' (config_file st))\<rparr>"
  have "categorize_transaction_with_amount st merchant_name amt w
          (map Line invalid @ Line chosen # evs) =
        prompt_user_for_category st merchant_name amt w (map Line invalid @ Line chosen # evs)"
    using assms(1,2) by (auto simp: categorize_transaction_with_amount_def Let_def)
  also have "\<dots> = prompt_user_for_category st merchant_name amt w (Line chosen # evs)"
    using assms(3) by (rule prompt_invalid_lines)
  also have "\<dots> = (Inr category, st', evs)"
    using assms(4) by (simp add: prompt_Line st'_def c'_def key_def)
  finally have first: "categorize_transaction_with_amount st merchant_name amt w
          (map Line invalid @ Line chosen # evs) = (Inr category, st', evs)" .
  have cfg: "categorization_config st' = add_keyword (categorization_config st) category key"
    by (simp add: st'_def c'_def)
  have kws: "keywords_of (categories (categorization_config st')) category =
             (if key \<in> set (keywords_of (categories (categorization_config st)) category)
              then keywords_of (categories (categorization_config st)) category
              else keywords_of (categories (categorization_config st)) category @ [key])"
    unfolding cfg by (rule add_keyword_keywords)
  have saved: "config_file st' = Some (categorization_config st')" if "w = WriteOk"
    using that by (simp add: st'_def c'_def)
  from first cfg kws saved show ?thesis
    unfolding key_def by blast
qed

text \<open>
  Whenever the derived keyword does not occur in the merchant name, case ignored, the
  rule set after the learning step still has no rule for the name, and every later call
  with the same name and amount runs the prompt again.
\<close>

lemma learned_keyword_outside_name:
  assumes "\<not> (prefix ''costco-'' (str_lower merchant_name) \<and> fl_gt amt 100)"
    and "match_category (categories (categorization_config st)) (str_lower merchant_name) = None"
    and "\<not> str_in (str_lower (extract_key_term_for_config merchant_name)) (str_lower merchant_name)"
    and "categorization_config st' =
           add_keyword (categorization_config st) category
             (extract_key_term_for_config merchant_name)"
  shows "categorize_transaction_with_amount st' merchant_name amt w evs =
           prompt_user_for_category st' merchant_name amt w evs"
proof -
  have "match_category (categories (categorization_config st')) (str_lower merchant_name) = None"
    unfolding assms(4) using assms(2,3) by (rule match_category_not_learned)
  with assms(1) show ?thesis
    by (auto simp: categorize_transaction_with_amount_def Let_def)
qed

section \<open>The claims about the classifier\<close>

text \<open>
  C1. A merchant name that starts with \<open>costco-\<close>, in any mix of upper and lower case,
  with an amount above 100 is classified as \<open>Shopping\<close>, whatever the rule set holds.
  The state and the pending input come back untouched, also when there is no input at
  all, where the prompt would end with \<open>EOFError\<close>: the learning fallback does not run.
\<close>

theorem costco_override:
  assumes "merchant_name = tag @ rest" and "str_lower tag = ''costco-''" and "fl_gt amt 100"
  shows "categorize_transaction_with_amount st merchant_name amt w evs =
           (Inr ''Shopping'', st, evs)"
proof -
  from assms(1,2) have "prefix ''costco-'' (str_lower merchant_name)"
    unfolding prefix_lower_iff by blast
  with assms(3) show ?thesis
    by (simp add: categorize_transaction_with_amount_def Let_def)
qed

theorem costco_override_witness:
  "str_lower ''CoStCo-'' = ''costco-'' \<and> fl_gt (Fl 250) 100 \<and>
   categorize_transaction_with_amount
     \<lparr>categorization_config =
        \<lparr>categories = [(''Groceries'', [''costco''])], default_category = None\<rparr>,
      config_file = None\<rparr>
     (''CoStCo-'' @ ''Tires'') (Fl 250) WriteOk [] =
   (Inr ''Shopping'',
    \<lparr>categorization_config =
       \<lparr>categories = [(''Groceries'', [''costco''])], default_category = None\<rparr>,
     config_file = None\<rparr>, [])"
proof -
  have h2: "str_lower ''CoStCo-'' = ''costco-''" by code_simp
  have h3: "fl_gt (Fl 250) 100" by simp
  from h2 h3 costco_override[OF refl h2 h3] show ?thesis by blast
qed

text \<open>
  C2. When the override does not apply and some category has a keyword that occurs in
  the merchant name, case ignored, the classifier returns the first such category in the
  stored order: every category before it has no keyword that occurs. The state and the
  pending input come back untouched, so the fallback does not run and the rule set is
  unchanged.
\<close>

theorem first_match_wins:
  assumes "\<not> (prefix ''costco-'' (str_lower merchant_name) \<and> fl_gt amt 100)"
    and "categories (categorization_config st) = before @ (category, keywords) # after"
    and "\<forall>(c, ks) \<in> set before. \<forall>k \<in> set ks. \<not> str_in (str_lower k) (str_lower merchant_name)"
    and "keyword \<in> set keywords"
    and "str_in (str_lower keyword) (str_lower merchant_name)"
  shows "categorize_transaction_with_amount st merchant_name amt w evs = (Inr category, st, evs)"
proof -
  have "match_category (categories (categorization_config st)) (str_lower merchant_name)
          = Some category"
    unfolding assms(2) using assms(3,4,5) by (rule match_category_first)
  with assms(1) show ?thesis
    by (auto simp: categorize_transaction_with_amount_def Let_def)
qed

theorem first_match_wins_witness:
  "categorize_transaction_with_amount
     \<lparr>categorization_config = default_config, config_file = None\<rparr>
     ''Gas Store'' (Fl 40) WriteOk [] =
   (Inr ''Transportation'', \<lparr>categorization_config = default_config, config_file = None\<rparr>, [])"
proof -
  have h1: "\<not> (prefix ''costco-'' (str_lower ''Gas Store'') \<and> fl_gt (Fl 40) 100)" by simp
  have h2: "categories (categorization_config
                \<lparr>categorization_config = default_config, config_file = None\<rparr>) =
            [(''Food'', [''restaurant'', ''cafe'', ''food''])] @
            (''Transportation'', [''uber'', ''lyft'', ''gas'', ''parking'']) #
            [(''Shopping'', [''amazon'', ''store'']), (''Other'', [])]"
    by (simp add: default_config_def)
  have h3: "\<forall>(c, ks) \<in> set [(''Food'', [''restaurant'', ''cafe'', ''food''])].
              \<forall>k \<in> set ks. \<not> str_in (str_lower k) (str_lower ''Gas Store'')"
    by code_simp
  have h4: "''gas'' \<in> set [''uber'', ''lyft'', ''gas'', ''parking'']" by simp
  have h5: "str_in (str_lower ''gas'') (str_lower ''Gas Store'')" by code_simp
  show ?thesis by (rule first_match_wins[OF h1 h2 h3 h4 h5])
qed

text \<open>
  C6. An interrupt while the prompt waits for input makes it return the configured
  default category, \<open>Other\<close> when none is configured, as a value and not as an exception,
  with the state as it was. This holds for an interrupt at the first prompt and after
  any number of lines that select nothing.
\<close>

theorem interrupt_gives_default:
  assumes "\<forall>l \<in> set invalid. selection l = None"
  shows "prompt_user_for_category st merchant_name amt w
           (map Line invalid @ KeyboardInterrupt # evs) =
         (Inr (case default_category (categorization_config st) of
                 Some d \<Rightarrow> d | None \<Rightarrow> ''Other''), st, evs)"
  using assms by (simp add: prompt_invalid_lines)

theorem interrupt_gives_default_witness:
  "prompt_user_for_category
     \<lparr>categorization_config = \<lparr>categories = [(''Food'', [''cafe''])], default_category = None\<rparr>,
      config_file = None\<rparr> ''Joes Diner'' (Fl 12) WriteOk
     (map Line [''abc'', '' '', ''9''] @ KeyboardInterrupt # [Line ''1'']) =
   (Inr ''Other'',
    \<lparr>categorization_config = \<lparr>categories = [(''Food'', [''cafe''])], default_category = None\<rparr>,
     config_file = None\<rparr>, [Line ''1''])"
proof -
  have h: "\<forall>l \<in> set [''abc'', '' '', ''9'']. selection l = None" by code_simp
  show ?thesis using interrupt_gives_default[OF h] by simp
qed

text \<open>
  C10. For a category that the rule set does not have, such as \<open>Payment\<close> or
  \<open>Healthcare\<close> under the built-in defaults, \<open>update_config_with_new_keyword\<close> returns
  normally, whatever the write does, and the category is a new last entry of the
  mapping whose keyword list is the one keyword.
\<close>

theorem new_category_appended:
  assumes "category \<notin> fst ` set (categories (categorization_config st))"
  shows "\<exists>st'. update_config_with_new_keyword st category keyword w = Inr st' \<and>
           categories (categorization_config st') =
             categories (categorization_config st) @ [(category, [keyword])]"
  using assms by (simp add: update_config_eq add_keyword_new)

theorem new_category_appended_witness:
  "\<exists>st'. update_config_with_new_keyword
            \<lparr>categorization_config = default_config, config_file = None\<rparr>
            ''Payment'' ''venmo'' DumpFails = Inr st' \<and>
         categories (categorization_config st') =
           [(''Food'', [''restaurant'', ''cafe'', ''food'']),
            (''Transportation'', [''uber'', ''lyft'', ''gas'', ''parking'']),
            (''Shopping'', [''amazon'', ''store'']),
            (''Other'', []),
            (''Payment'', [''venmo''])]"
proof -
  have h: "''Payment'' \<notin> fst ` set (categories (categorization_config
             \<lparr>categorization_config = default_config, config_file = None\<rparr>))"
    by (simp add: default_config_def)
  show ?thesis
    using new_category_appended[OF h, of "''venmo''" DumpFails]
    by (simp add: default_config_def)
qed

text \<open>
  C5. When the write of the rule set raises, \<open>update_config_with_new_keyword\<close> still
  returns normally, and the rule set in memory is the one with the keyword added. From
  then on a merchant name in which the keyword occurs, outside the override, is
  classified by the rules without the prompt; it gets the keyword's category when no
  keyword matched it before.
\<close>

theorem write_failure_keeps_keyword:
  assumes "w \<noteq> WriteOk"
  shows "\<exists>st'. update_config_with_new_keyword st category keyword w = Inr st' \<and>
           fst (dump_config w (categorization_config st') (config_file st)) \<noteq> None \<and>
           categorization_config st' = add_keyword (categorization_config st) category keyword \<and>
           keyword \<in> set (keywords_of (categories (categorization_config st')) category) \<and>
           (\<forall>merchant_name amt w2 evs.
              \<not> (prefix ''costco-'' (str_lower merchant_name) \<and> fl_gt amt 100) \<longrightarrow>
              str_in (str_lower keyword) (str_lower merchant_name) \<longrightarrow>
                (\<exists>c. categorize_transaction_with_amount st' merchant_name amt w2 evs =
                       (Inr c, st', evs)) \<and>
                (match_category (categories (categorization_config st)) (str_lower merchant_name)
                   = None \<longrightarrow>
                 categorize_transaction_with_amount st' merchant_name amt w2 evs =
                   (Inr category, st', evs)))"
proof -
  define c' where "c' = add_keyword (categorization_config st) category keyword"
  define st' where
    "st' = \<lparr>categorization_config = c', config_file = snd (dump_config w c' (config_file st))\<rparr>"
  have upd: "update_config_with_new_keyword st category keyword w = Inr st'"
    by (simp add: update_config_eq st'_def c'_def)
  have raised: "fst (dump_config w (categorization_config st') (config_file st)) \<noteq> None"
    using assms by (cases w) (simp_all add: st'_def)
  have cfg: "categorization_config st' = add_keyword (categorization_config st) category keyword"
    by (simp add: st'_def c'_def)
  have present: "keyword \<in> set (keywords_of (categories (categorization_config st')) category)"
    unfolding cfg by (rule add_keyword_present)
  have later: "(\<exists>c. categorize_transaction_with_amount st' merchant_name amt w2 evs =
                       (Inr c, st', evs)) \<and>
                (match_category (categories (categorization_config st)) (str_lower merchant_name)
                   = None \<longrightarrow>
                 categorize_transaction_with_amount st' merchant_name amt w2 evs =
                   (Inr category, st', evs))"
    if no: "\<not> (prefix ''costco-'' (str_lower merchant_name) \<and> fl_gt amt 100)"
      and sub: "str_in (str_lower keyword) (str_lower merchant_name)"
    for merchant_name amt w2 evs
  proof
    have "category \<in> fst ` set (categories (categorization_config st'))"
      unfolding cfg by (rule add_keyword_in_dom)
    then have "match_category (categories (categorization_config st')) (str_lower merchant_name)
                 \<noteq> None"
      using present sub by (rule match_category_keyword)
    then obtain c where "match_category (categories (categorization_config st'))
                           (str_lower merchant_name) = Some c" by blast
    with no show "\<exists>c. categorize_transaction_with_amount st' merchant_name amt w2 evs =
                       (Inr c, st', evs)"
      by (auto simp: categorize_transaction_with_amount_def Let_def)
  next
    show "match_category (categories (categorization_config st)) (str_lower merchant_name) = None
            \<longrightarrow> categorize_transaction_with_amount st' merchant_name amt w2 evs =
                   (Inr category, st', evs)"
    proof
      assume "match_category (categories (categorization_config st)) (str_lower merchant_name)
                = None"
      then have "match_category (categories (categorization_config st'))
                   (str_lower merchant_name) = Some category"
        unfolding cfg using sub by (rule match_category_learned)
      with no show "categorize_transaction_with_amount st' merchant_name amt w2 evs =
                      (Inr category, st', evs)"
        by (auto simp: categorize_transaction_with_amount_def Let_def)
    qed
  qed
  from upd raised cfg present later show ?thesis by blast
qed

theorem write_failure_keeps_keyword_witness:
  "OpenFails \<noteq> WriteOk \<and>
   (\<exists>st'. update_config_with_new_keyword
             \<lparr>categorization_config = default_config, config_file = None\<rparr>
             ''Shopping'' ''ikea'' OpenFails = Inr st' \<and>
          ''ikea'' \<in> set (keywords_of (categories (categorization_config st')) ''Shopping'') \<and>
          categorize_transaction_with_amount st' ''IKEA'' (Fl 80) WriteOk [] =
            (Inr ''Shopping'', st', []))"
proof -
  have h: "OpenFails \<noteq> WriteOk" by simp
  have h1: "\<not> (prefix ''costco-'' (str_lower ''IKEA'') \<and> fl_gt (Fl 80) 100)" by simp
  have h2: "str_in (str_lower ''ikea'') (str_lower ''IKEA'')" by code_simp
  have h3: "match_category (categories (categorization_config
              \<lparr>categorization_config = default_config, config_file = None\<rparr>))
              (str_lower ''IKEA'') = None"
    by code_simp
  from write_failure_keeps_keyword[OF h, of
      "\<lparr>categorization_config = default_config, config_file = None\<rparr>" "''Shopping''" "''ikea''"]
  obtain st' where
    "update_config_with_new_keyword \<lparr>categorization_config = default_config, config_file = None\<rparr>
       ''Shopping'' ''ikea'' OpenFails = Inr st'"
    and "''ikea'' \<in> set (keywords_of (categories (categorization_config st')) ''Shopping'')"
    and "\<forall>merchant_name amt w2 evs.
              \<not> (prefix ''costco-'' (str_lower merchant_name) \<and> fl_gt amt 100) \<longrightarrow>
              str_in (str_lower ''ikea'') (str_lower merchant_name) \<longrightarrow>
                (\<exists>c. categorize_transaction_with_amount st' merchant_name amt w2 evs =
                       (Inr c, st', evs)) \<and>
                (match_category (categories (categorization_config
                    \<lparr>categorization_config = default_config, config_file = None\<rparr>))
                   (str_lower merchant_name) = None \<longrightarrow>
                 categorize_transaction_with_amount st' merchant_name amt w2 evs =
                   (Inr ''Shopping'', st', evs))"
    by blast
  with h h1 h2 h3 show ?thesis by blast
qed

text \<open>
  C4. A second call of \<open>update_config_with_new_keyword\<close> with the same category and
  keyword leaves the rule set as the first call made it, whatever the two writes do.
  After the first call the keyword is in the category's list; it is there exactly once
  when it was there at most once before the call, since the function adds a keyword that
  is missing and removes nothing.
\<close>

theorem update_config_idempotent:
  "\<exists>st1. update_config_with_new_keyword st category keyword w1 = Inr st1 \<and>
     keyword \<in> set (keywords_of (categories (categorization_config st1)) category) \<and>
     (count_list (keywords_of (categories (categorization_config st)) category) keyword \<le> 1
        \<longrightarrow> count_list (keywords_of (categories (categorization_config st1)) category) keyword = 1) \<and>
     (\<exists>st2. update_config_with_new_keyword st1 category keyword w2 = Inr st2 \<and>
            categorization_config st2 = categorization_config st1)"
proof -
  define c1 where "c1 = add_keyword (categorization_config st) category keyword"
  define st1 where
    "st1 = \<lparr>categorization_config = c1, config_file = snd (dump_config w1 c1 (config_file st))\<rparr>"
  have first: "update_config_with_new_keyword st category keyword w1 = Inr st1"
    by (simp add: update_config_eq st1_def c1_def)
  have cfg: "categorization_config st1 = c1" by (simp add: st1_def)
  have present: "keyword \<in> set (keywords_of (categories (categorization_config st1)) category)"
    unfolding cfg c1_def by (rule add_keyword_present)
  have once: "count_list (keywords_of (categories (categorization_config st1)) category) keyword = 1"
    if "count_list (keywords_of (categories (categorization_config st)) category) keyword \<le> 1"
  proof (cases "keyword \<in> set (keywords_of (categories (categorization_config st)) category)")
    case True
    then have "count_list (keywords_of (categories (categorization_config st)) category) keyword
                 \<noteq> 0"
      by (simp add: count_list_0_iff)
    with that True show ?thesis by (simp add: cfg c1_def add_keyword_keywords)
  next
    case False
    then show ?thesis by (simp add: cfg c1_def add_keyword_keywords count_list_0_iff[THEN iffD2])
  qed
  have second: "update_config_with_new_keyword st1 category keyword w2 =
                  Inr \<lparr>categorization_config = c1,
                       config_file = snd (dump_config w2 c1 (config_file st1))\<rparr>"
    by (simp add: update_config_eq cfg c1_def add_keyword_idem)
  from first present once second cfg show ?thesis by auto
qed

theorem update_config_idempotent_witness:
  "\<exists>st1. update_config_with_new_keyword
            \<lparr>categorization_config = default_config, config_file = None\<rparr>
            ''Shopping'' ''ikea'' WriteOk = Inr st1 \<and>
         count_list (keywords_of (categories (categorization_config st1)) ''Shopping'') ''ikea'' = 1 \<and>
         (\<exists>st2. update_config_with_new_keyword st1 ''Shopping'' ''ikea'' OpenFails = Inr st2 \<and>
                categorization_config st2 = categorization_config st1)"
proof -
  have h: "count_list (keywords_of (categories (categorization_config
             \<lparr>categorization_config = default_config, config_file = None\<rparr>)) ''Shopping'')
             ''ikea'' \<le> 1"
    by (simp add: default_config_def keywords_of_def)
  from update_config_idempotent[of
      "\<lparr>categorization_config = default_config, config_file = None\<rparr>"
      "''Shopping''" "''ikea''" WriteOk OpenFails] h
  show ?thesis by blast
qed

text \<open>
  The claim as the specification words it fails on a rule set whose list already holds
  the keyword twice, as a rule file edited by hand may: the list is left as it is.
\<close>

theorem update_config_idempotent_counterexample:
  "update_config_with_new_keyword
     \<lparr>categorization_config =
        \<lparr>categories = [(''Food'', [''cafe'', ''cafe''])], default_category = Some ''Other''\<rparr>,
      config_file = None\<rparr>
     ''Food'' ''cafe'' WriteOk =
   Inr \<lparr>categorization_config =
          \<lparr>categories = [(''Food'', [''cafe'', ''cafe''])], default_category = Some ''Other''\<rparr>,
        config_file =
          Some \<lparr>categories = [(''Food'', [''cafe'', ''cafe''])],
                default_category = Some ''Other''\<rparr>\<rparr> \<and>
   count_list (keywords_of [(''Food'', [''cafe'', ''cafe''])] ''Food'') ''cafe'' \<noteq> 1"
  by (simp add: update_config_with_new_keyword_def add_keyword_def keywords_of_def Let_def)

text \<open>
  C3. A merchant name outside the override that no keyword matches reaches the prompt,
  and a selection makes the classifier learn the keyword that
  \<open>extract_key_term_for_config\<close> derives from the name, so that the next call with the
  same name is classified by the rule. For the name \<open>Foo 123 Bar\<close> the code does not get
  there. The derived keyword is \<open>foo bar\<close>: the number between the two words is skipped
  and the words are joined by one space, so the keyword does not occur in the name.
  The first call returns \<open>Shopping\<close>, adds the keyword and writes the rule file; the
  second call with the same name and amount finds no rule and runs the prompt again:
  with no input left it ends with \<open>EOFError\<close>, and an interrupt makes it return
  \<open>Other\<close>, not the category that was learned.
\<close>

theorem learning_fallback_prompts_again:
  "extract_key_term_for_config ''Foo 123 Bar'' = ''foo bar'' \<and>
   \<not> str_in (str_lower ''foo bar'') (str_lower ''Foo 123 Bar'') \<and>
   categorize_transaction_with_amount fresh_analyzer ''Foo 123 Bar'' (Fl 5) WriteOk [Line ''3''] =
     (Inr ''Shopping'', foo_bar_analyzer, []) \<and>
   categorize_transaction_with_amount foo_bar_analyzer ''Foo 123 Bar'' (Fl 5) WriteOk [] =
     (Inl EOFError, foo_bar_analyzer, []) \<and>
   categorize_transaction_with_amount foo_bar_analyzer ''Foo 123 Bar'' (Fl 5) WriteOk
     [KeyboardInterrupt] = (Inr ''Other'', foo_bar_analyzer, [])"
proof -
  have key: "extract_key_term_for_config ''Foo 123 Bar'' = ''foo bar''" by code_simp
  have nosub: "\<not> str_in (str_lower ''foo bar'') (str_lower ''Foo 123 Bar'')" by code_simp
  have none1: "match_category (categories default_config) (str_lower ''Foo 123 Bar'') = None"
    by code_simp
  have none2: "match_category (categories foo_bar_config) (str_lower ''Foo 123 Bar'') = None"
    by code_simp
  have sel: "selection ''3'' = Some ''Shopping''" by code_simp
  have add: "add_keyword default_config ''Shopping'' ''foo bar'' = foo_bar_config"
    by (simp add: add_keyword_def default_config_def foo_bar_config_def keywords_of_def Let_def)
  have ov: "\<not> (prefix ''costco-'' (str_lower ''Foo 123 Bar'') \<and> fl_gt (Fl 5) 100)" by simp
  have first: "categorize_transaction_with_amount fresh_analyzer ''Foo 123 Bar'' (Fl 5) WriteOk
                 [Line ''3''] = (Inr ''Shopping'', foo_bar_analyzer, [])"
    using ov none1
    by (simp add: categorize_transaction_with_amount_def Let_def prompt_Line sel key add
          fresh_analyzer_def foo_bar_analyzer_def)
  have again: "categorize_transaction_with_amount foo_bar_analyzer ''Foo 123 Bar'' (Fl 5) w evs =
                 prompt_user_for_category foo_bar_analyzer ''Foo 123 Bar'' (Fl 5) w evs" for w evs
    using ov none2
    by (simp add: categorize_transaction_with_amount_def Let_def foo_bar_analyzer_def)
  have eof: "prompt_user_for_category foo_bar_analyzer ''Foo 123 Bar'' (Fl 5) WriteOk [] =
               (Inl EOFError, foo_bar_analyzer, [])"
    by simp
  have intr: "prompt_user_for_category foo_bar_analyzer ''Foo 123 Bar'' (Fl 5) WriteOk
                [KeyboardInterrupt] = (Inr ''Other'', foo_bar_analyzer, [])"
    by (simp add: foo_bar_analyzer_def foo_bar_config_def)
  from key nosub first again eof intr show ?thesis by simp
qed

text \<open>
  The same happens inside the pipeline. The description \<open>SQ *TST*  FSP*\<close> is
  normalized to a name with two spaces in a row, and the keyword derived from that name
  has one space, so it does not occur in the name either.
\<close>

lemma learned_keyword_misses_normalized_name:
  "extract_merchant_name ''SQ *TST*  FSP*'' = ''Sq *Tst*  Fsp*'' \<and>
   extract_key_term_for_config ''Sq *Tst*  Fsp*'' = ''tst* fsp*'' \<and>
   \<not> str_in (str_lower ''tst* fsp*'') (str_lower ''Sq *Tst*  Fsp*'')"
  by code_simp

section \<open>Properties of the adapters\<close>

lemma map_raise_Inr: "\<forall>x \<in> set xs. f x = Inr (g x) \<Longrightarrow> map_raise f xs = Inr (map g xs)"
  by (induction xs) simp_all

lemma map_raise_length: "map_raise f xs = Inr ys \<Longrightarrow> length ys = length xs"
  by (induction xs arbitrary: ys) (auto split: sum.splits)

lemma zip_map_same: "zip (map f xs) (map g xs) = map (\<lambda>x. (f x, g x)) xs"
  by (induction xs) simp_all

lemma map2_map_same: "map (\<lambda>(x, v). f x v) (zip xs (map g xs)) = map (\<lambda>x. f x (g x)) xs"
  by (induction xs) simp_all

lemma filled_floats_Num:
  "filled_floats cv (map (\<lambda>r. Num (h r)) xs) = Inr (map (\<lambda>r. Fl (nan_to_zero (h r))) xs)"
proof -
  have "py_float cv (fillna0 (Num d)) = Inr (Fl (nan_to_zero d))" for d
    by (cases d) simp_all
  then have "\<forall>v \<in> set (map (\<lambda>r. Num (h r)) xs).
               py_float cv (fillna0 v) = Inr (case v of Num d \<Rightarrow> Fl (nan_to_zero d) | _ \<Rightarrow> NaN)"
    by auto
  then have "filled_floats cv (map (\<lambda>r. Num (h r)) xs) =
               Inr (map (\<lambda>v. case v of Num d \<Rightarrow> Fl (nan_to_zero d) | _ \<Rightarrow> NaN)
                      (map (\<lambda>r. Num (h r)) xs))"
    unfolding filled_floats_def by (rule map_raise_Inr)
  then show ?thesis by (simp add: comp_def)
qed

lemma should_skip_transactionI:
  assumes "skip_patterns p \<noteq> []" and "description_column_name p = Some col" and "col \<noteq> []"
    and "map_of r col = Some v" and "pattern \<in> set (skip_patterns p)"
    and "str_in (str_lower pattern) (str_lower (py_str cv v))"
  shows "should_skip_transaction cv p r"
  using assms by (auto simp: should_skip_transaction_def Let_def list_ex_iff)

lemma process_rows_skip:
  assumes "should_skip_transaction cv p r"
  shows "process_rows cv p (before @ r # after) processed =
         process_rows cv p (before @ after) processed"
  using assms
  by (induction before arbitrary: processed) (simp_all split: sum.splits option.splits)

text \<open>
  Every transaction that the loop adds comes from a row that is not skipped.
\<close>

lemma process_rows_provenance:
  assumes "process_rows cv p rs processed = Inr out" and "t \<in> set out"
  shows "t \<in> set processed \<or>
         (\<exists>r \<in> set rs. \<not> should_skip_transaction cv p r \<and>
                        extract_transaction_data cv p r = Inr (Some t))"
  using assms
proof (induction rs arbitrary: processed)
  case Nil
  then show ?case by simp
next
  case (Cons r rs)
  show ?case
  proof (cases "should_skip_transaction cv p r")
    case True
    with Cons.prems have "process_rows cv p rs processed = Inr out" by simp
    from Cons.IH[OF this Cons.prems(2)] show ?thesis by auto
  next
    case False
    show ?thesis
    proof (cases "extract_transaction_data cv p r")
      case (Inl e)
      with False Cons.prems show ?thesis by simp
    next
      case (Inr res)
      show ?thesis
      proof (cases res)
        case None
        with False Inr Cons.prems have "process_rows cv p rs processed = Inr out" by simp
        from Cons.IH[OF this Cons.prems(2)] show ?thesis by auto
      next
        case (Some t')
        with False Inr Cons.prems have "process_rows cv p rs (processed @ [t']) = Inr out"
          by simp
        from Cons.IH[OF this Cons.prems(2)] False Inr Some show ?thesis by auto
      qed
    qed
  qed
qed

lemma spec_consolidated_amount_cells:
  assumes "spec_consolidated_amount r \<noteq> None"
  obtains d c where "map_of r ''Debit'' = Some (Num d)" and "map_of r ''Credit'' = Some (Num c)"
proof (cases "map_of r ''Debit''")
  case None
  with assms show ?thesis by (simp add: spec_consolidated_amount_def)
next
  case debit: (Some vd)
  show ?thesis
  proof (cases "map_of r ''Credit''")
    case None
    with assms debit show ?thesis
      by (cases vd) (simp_all add: spec_consolidated_amount_def)
  next
    case credit: (Some vc)
    with assms debit that show ?thesis
      by (cases vd; cases vc) (simp_all add: spec_consolidated_amount_def)
  qed
qed

section \<open>The claims about the adapters\<close>

text \<open>
  C8. Take an adapter with skip patterns and a description column, and a row of the
  frame that \<open>process\<close> iterates over whose description, as \<open>str\<close> gives it, holds one
  of the patterns, case ignored. Then \<open>process\<close> returns what its loop returns on the
  rows without that row, with the same exception if one is raised: nothing in the
  output comes from the row.
\<close>

theorem skip_pattern_excludes_row:
  assumes "skip_patterns p \<noteq> []" and "description_column_name p = Some col" and "col \<noteq> []"
    and "prepare_dataframe cv p df = Inr df'"
    and "rows df' = before @ r # after"
    and "map_of r col = Some v"
    and "pattern \<in> set (skip_patterns p)"
    and "str_in (str_lower pattern) (str_lower (py_str cv v))"
  shows "process cv p df = process_rows cv p (before @ after) []"
proof -
  have "should_skip_transaction cv p r"
    using assms(1,2,3,6,7,8) by (rule should_skip_transactionI)
  then have "process_rows cv p (before @ r # after) [] = process_rows cv p (before @ after) []"
    by (rule process_rows_skip)
  with assms(4,5) show ?thesis by (simp add: process_def)
qed

theorem skip_pattern_excludes_row_witness:
  "process sample_conversions citi sample_frame =
     Inr [\<lparr>date = Timestamp ''2025-03-01'', description = Text ''TST* Dough Zone 2xxx'',
           amount = Fl 32.5\<rparr>,
          \<lparr>date = Timestamp ''2025-03-03'', description = Text ''ONLINE PAYMENT'',
           amount = Fl (- 100)\<rparr>]"
proof -
  let ?r1 = "[(''Date'', Timestamp ''2025-03-01''), (''Description'', Text ''TST* Dough Zone 2xxx''),
              (''Debit'', Num (Fl 32.5)), (''Credit'', Num NaN), (''Amount'', Num (Fl 32.5))]"
  let ?r2 = "[(''Date'', Timestamp ''2025-03-02''), (''Description'', Text ''COSTCO WHSE #0001''),
              (''Debit'', Num (Fl 210)), (''Credit'', Num NaN), (''Amount'', Num (Fl 210))]"
  let ?r3 = "[(''Date'', Timestamp ''2025-03-03''), (''Description'', Text ''ONLINE PAYMENT''),
              (''Debit'', Num NaN), (''Credit'', Num (Fl (- 100))), (''Amount'', Num (Fl (- 100)))]"
  let ?df' = "\<lparr>columns = [''Date'', ''Description'', ''Debit'', ''Credit'', ''Amount''],
               rows = [?r1, ?r2, ?r3]\<rparr>"
  have h1: "skip_patterns citi \<noteq> []" by (simp add: citi_def)
  have h2: "description_column_name citi = Some ''Description''" by (simp add: citi_def)
  have h3: "''Description'' \<noteq> []" by simp
  have h4: "prepare_dataframe sample_conversions citi sample_frame = Inr ?df'"
    by (simp add: prepare_dataframe_def consolidate_columns_def get_column_def set_column_def
          filled_floats_def row_get_def sample_conversions_def sample_frame_def citi_def)
  have h5: "rows ?df' = [?r1] @ ?r2 # [?r3]" by simp
  have h6: "map_of ?r2 ''Description'' = Some (Text ''COSTCO WHSE #0001'')" by simp
  have h7: "''costco'' \<in> set (skip_patterns citi)" by (simp add: citi_def)
  have h8: "str_in (str_lower ''costco'')
              (str_lower (py_str sample_conversions (Text ''COSTCO WHSE #0001'')))"
    by code_simp
  have skip1: "\<not> should_skip_transaction sample_conversions citi ?r1" by code_simp
  have skip3: "\<not> should_skip_transaction sample_conversions citi ?r3" by code_simp
  have rest: "process_rows sample_conversions citi ([?r1] @ [?r3]) [] =
     Inr [\<lparr>date = Timestamp ''2025-03-01'', description = Text ''TST* Dough Zone 2xxx'',
           amount = Fl 32.5\<rparr>,
          \<lparr>date = Timestamp ''2025-03-03'', description = Text ''ONLINE PAYMENT'',
           amount = Fl (- 100)\<rparr>]"
    using skip1 skip3
    by (simp add: extract_transaction_data_def row_get_def citi_def)
  from skip_pattern_excludes_row[OF h1 h2 h3 h4 h5 h6 h7 h8] rest show ?thesis by simp
qed

text \<open>
  C9. For the adapter of the source with two columns, on a frame that has both columns
  and whose cells in them are numbers or missing, \<open>consolidate_columns\<close> returns a frame
  whose column \<open>Amount\<close> holds, row by row, \<open>Debit\<close> plus \<open>Credit\<close> with a missing value
  counted as 0. A row with \<open>Debit\<close> 32.50 and no \<open>Credit\<close> gets the amount 32.50.
\<close>

theorem consolidate_debit_plus_credit:
  assumes "processor_class p = CitiCSVProcessor"
    and "''Debit'' \<in> set (columns df)" and "''Credit'' \<in> set (columns df)"
    and "\<forall>r \<in> set (rows df). spec_consolidated_amount r \<noteq> None"
  shows "\<exists>df'. consolidate_columns cv p df = Inr df' \<and>
           map (\<lambda>r. map_of r ''Amount'') (rows df') = map spec_consolidated_amount (rows df)"
proof -
  define dv where "dv r = (case map_of r ''Debit'' of Some (Num d) \<Rightarrow> d | _ \<Rightarrow> NaN)" for r :: row
  define cr where "cr r = (case map_of r ''Credit'' of Some (Num c) \<Rightarrow> c | _ \<Rightarrow> NaN)" for r :: row
  have cells: "map_of r ''Debit'' = Some (Num (dv r)) \<and> map_of r ''Credit'' = Some (Num (cr r)) \<and>
               spec_consolidated_amount r = Some (Num (Fl (nan_to_zero (dv r) + nan_to_zero (cr r))))"
    if "r \<in> set (rows df)" for r
  proof -
    from assms(4) that have "spec_consolidated_amount r \<noteq> None" by blast
    then obtain d c where "map_of r ''Debit'' = Some (Num d)" and "map_of r ''Credit'' = Some (Num c)"
      by (rule spec_consolidated_amount_cells)
    then show ?thesis by (simp add: spec_consolidated_amount_def dv_def cr_def)
  qed
  have debit: "get_column df ''Debit'' = Inr (map (\<lambda>r. Num (dv r)) (rows df))"
    unfolding get_column_def using assms(2) cells
    by (simp add: map_raise_Inr row_get_def)
  have credit: "get_column df ''Credit'' = Inr (map (\<lambda>r. Num (cr r)) (rows df))"
    unfolding get_column_def using assms(3) cells
    by (simp add: map_raise_Inr row_get_def)
  define df' where "df' = set_column df ''Amount''
      (map (\<lambda>(d, c). Num (fl_add d c))
         (zip (map (\<lambda>r. Fl (nan_to_zero (dv r))) (rows df))
              (map (\<lambda>r. Fl (nan_to_zero (cr r))) (rows df))))"
  have res: "consolidate_columns cv p df = Inr df'"
    using assms(1) by (simp add: consolidate_columns_def debit credit filled_floats_Num df'_def)
  have "rows df' =
          map (\<lambda>r. AList.update ''Amount'' (Num (Fl (nan_to_zero (dv r) + nan_to_zero (cr r)))) r)
            (rows df)"
    by (simp add: df'_def set_column_def zip_map_same comp_def map2_map_same)
  then have "map (\<lambda>r. map_of r ''Amount'') (rows df') =
          map (\<lambda>r. Some (Num (Fl (nan_to_zero (dv r) + nan_to_zero (cr r))))) (rows df)"
    by (simp add: comp_def update_conv')
  also have "\<dots> = map spec_consolidated_amount (rows df)"
    using cells by simp
  finally show ?thesis using res by blast
qed

theorem consolidate_debit_plus_credit_witness:
  "\<exists>df'. consolidate_columns sample_conversions citi sample_frame = Inr df' \<and>
         map (\<lambda>r. map_of r ''Amount'') (rows df') =
           [Some (Num (Fl 32.5)), Some (Num (Fl 210)), Some (Num (Fl (- 100)))]"
proof -
  have h1: "processor_class citi = CitiCSVProcessor" by (simp add: citi_def)
  have h2: "''Debit'' \<in> set (columns sample_frame)" by (simp add: sample_frame_def)
  have h3: "''Credit'' \<in> set (columns sample_frame)" by (simp add: sample_frame_def)
  have h4: "\<forall>r \<in> set (rows sample_frame). spec_consolidated_amount r \<noteq> None"
    by (simp add: sample_frame_def spec_consolidated_amount_def)
  have v: "map spec_consolidated_amount (rows sample_frame) =
             [Some (Num (Fl 32.5)), Some (Num (Fl 210)), Some (Num (Fl (- 100)))]"
    by (simp add: sample_frame_def spec_consolidated_amount_def)
  from consolidate_debit_plus_credit[OF h1 h2 h3 h4, of sample_conversions]
  show ?thesis unfolding v .
qed

section \<open>Properties of the merchant normalizer\<close>

lemma upper_char_no_space: "\<not> is_space_char c \<Longrightarrow> \<not> is_space_char (upper_char c)"
  by (auto simp: upper_char_def is_space_char_def is_lower_char_def Let_def)

lemma lower_char_no_space: "\<not> is_space_char c \<Longrightarrow> \<not> is_space_char (lower_char c)"
  by (auto simp: lower_char_def is_space_char_def is_upper_char_def Let_def)

lemma title_from_no_space: "no_space w \<Longrightarrow> no_space (title_from b w)"
  by (induction w arbitrary: b) (auto simp: no_space_def upper_char_no_space lower_char_no_space)

lemma split_run_no_space:
  "no_space w \<Longrightarrow> split_run cur (w @ rest) = split_run (rev w @ cur) rest"
  by (induction w arbitrary: cur) (auto simp: no_space_def)

lemma split_run_word: "no_space w \<Longrightarrow> split_run [] w = (if w = [] then [] else [w])"
  using split_run_no_space[of w "[]" "[]"] by simp

lemma split_run_words:
  assumes "\<forall>c \<in> set cur. \<not> is_space_char c" and "w \<in> set (split_run cur s)"
  shows "w \<noteq> [] \<and> no_space w"
  using assms
proof (induction s arbitrary: cur)
  case Nil
  then show ?case by (cases "cur = []") (simp_all add: no_space_def)
next
  case (Cons c s)
  show ?case
  proof (cases "is_space_char c")
    case False
    with Cons.prems have "w \<in> set (split_run (c # cur) s)" by simp
    moreover from False Cons.prems(1) have "\<forall>c' \<in> set (c # cur). \<not> is_space_char c'" by simp
    ultimately show ?thesis by (rule Cons.IH[rotated])
  next
    case True
    have empty: "\<forall>c' \<in> set ([] :: string). \<not> is_space_char c'" by simp
    show ?thesis
    proof (cases "cur = []")
      case True
      with \<open>is_space_char c\<close> Cons.prems have "w \<in> set (split_run [] s)" by simp
      with empty show ?thesis by (rule Cons.IH)
    next
      case False
      with \<open>is_space_char c\<close> Cons.prems have "w = rev cur \<or> w \<in> set (split_run [] s)" by simp
      then show ?thesis
      proof
        assume "w = rev cur"
        with False Cons.prems(1) show ?thesis by (simp add: no_space_def)
      next
        assume "w \<in> set (split_run [] s)"
        with empty show ?thesis by (rule Cons.IH)
      qed
    qed
  qed
qed

lemma str_split_words: "w \<in> set (str_split s) \<Longrightarrow> w \<noteq> [] \<and> no_space w"
  using split_run_words[of "[]" w s] by (simp add: str_split_def)

lemma split_join2:
  assumes "no_space a" and "no_space b"
  shows "length (str_split (join_space [a, b])) \<le> 2"
proof -
  have "split_run [] (a @ CHR '' '' # b) = split_run (rev a) (CHR '' '' # b)"
    using split_run_no_space[OF assms(1), of "[]" "CHR '' '' # b"] by simp
  moreover have "is_space_char CHR '' ''" by (simp add: is_space_char_def)
  ultimately show ?thesis
    using assms(2) by (simp add: str_split_def split_run_word)
qed

lemma split_join_le2:
  assumes "\<forall>w \<in> set ws. no_space w" and "length ws \<le> 2"
  shows "length (str_split (join_space ws)) \<le> 2"
proof (cases ws)
  case Nil
  then show ?thesis by (simp add: str_split_def)
next
  case (Cons a ws')
  show ?thesis
  proof (cases ws')
    case Nil
    with Cons assms show ?thesis by (simp add: str_split_def split_run_word)
  next
    case (Cons b ws'')
    with \<open>ws = a # ws'\<close> assms have "ws = [a, b]" "no_space a" "no_space b" by auto
    then show ?thesis using split_join2 by simp
  qed
qed

lemma collect_clean_no_space:
  assumes "\<forall>w \<in> set ws. no_space w" and "\<forall>w \<in> set acc. no_space w"
  shows "\<forall>w \<in> set (collect_clean ws acc). no_space w"
  using assms
  by (induction ws acc rule: collect_clean.induct)
     (auto simp: Let_def str_title_def title_from_no_space)


lemma two_words_if:
  "(\<forall>n. x = Some n \<longrightarrow> two_words n) \<Longrightarrow> (\<forall>n. r = Some n \<longrightarrow> two_words n) \<Longrightarrow>
   (\<forall>n. (if c then x else r) = Some n \<longrightarrow> two_words n)"
  by simp

lemma two_words_Some: "two_words a \<Longrightarrow> (\<forall>n. Some a = Some n \<longrightarrow> two_words n)"
  by simp

lemma two_words_None: "\<forall>n. None = Some n \<longrightarrow> two_words n"
  by simp

lemma known_merchant_two_words: "\<forall>n. known_merchant d = Some n \<longrightarrow> two_words n"
  unfolding known_merchant_def
  by (rule two_words_if two_words_Some two_words_None | code_simp)+

lemma no_space_one_word: "no_space w \<Longrightarrow> two_words w"
  by (simp add: two_words_def str_split_def split_run_word)

lemma no_space_take: "no_space w \<Longrightarrow> no_space (take n w)"
  by (auto simp: no_space_def dest: in_set_takeD)

text \<open>
  The result of \<open>extract_merchant_name\<close> has at most two words whenever a known merchant
  matches or the description, with its prefixes removed, still has a word.
\<close>

lemma extract_merchant_name_two_words:
  assumes "known_merchant (str_lower raw) \<noteq> None \<or>
           str_split (remove_prefixes [''SQ *'', ''TST*'', ''SP '', ''FSP*'', ''6602-'']
                        (str_strip raw)) \<noteq> []"
  shows "two_words (extract_merchant_name raw)"
proof (cases "known_merchant (str_lower raw)")
  case (Some n)
  from known_merchant_two_words[rule_format, OF Some] show ?thesis
    by (simp only: extract_merchant_name_def Some option.case)
next
  case None
  define ws where "ws = str_split (remove_prefixes [''SQ *'', ''TST*'', ''SP '', ''FSP*'', ''6602-'']
                                     (str_strip raw))"
  define cw where "cw = collect_clean ws []"
  from None assms have "ws \<noteq> []" by (simp only: ws_def simp_thms)
  then obtain w rest where ws: "ws = w # rest" by (cases ws) auto
  have eq: "extract_merchant_name raw =
              (if cw \<noteq> [] then join_space (take 2 cw)
               else take 15 (str_title (case ws of w # _ \<Rightarrow> w | [] \<Rightarrow> raw)))"
    by (simp only: extract_merchant_name_def None Let_def ws_def cw_def option.case)
  have words: "\<forall>w \<in> set ws. no_space w"
    unfolding ws_def using str_split_words by blast
  then have clean: "\<forall>w \<in> set cw. no_space w"
    unfolding cw_def by (rule collect_clean_no_space) simp
  show ?thesis
  proof (cases "cw = []")
    case True
    from words ws have "no_space w" by simp
    then have "no_space (take 15 (str_title w))"
      by (simp add: str_title_def title_from_no_space no_space_take)
    then have "two_words (take 15 (str_title w))" by (rule no_space_one_word)
    with True ws show ?thesis by (simp add: eq)
  next
    case False
    from clean have "\<forall>w \<in> set (take 2 cw). no_space w" by (auto dest: in_set_takeD)
    then have "two_words (join_space (take 2 cw))"
      unfolding two_words_def by (rule split_join_le2) simp
    with False show ?thesis by (simp add: eq)
  qed
qed

section \<open>The claim about the merchant normalizer\<close>

text \<open>
  C7. The description \<open>SQ * TST*\<close> matches no known merchant; the two prefixes are
  removed one after the other and nothing is left, so there is no word, and the
  function falls back on the whole description, in title case. The result has three
  words, where the function's documentation and the claim promise at most two. By
  \<open>extract_merchant_name_two_words\<close> this branch is the only one that can give more
  than two words.
\<close>

theorem extract_merchant_name_three_words:
  "known_merchant (str_lower ''SQ * TST*'') = None \<and>
   str_split (remove_prefixes [''SQ *'', ''TST*'', ''SP '', ''FSP*'', ''6602-'']
                (str_strip ''SQ * TST*'')) = [] \<and>
   extract_merchant_name ''SQ * TST*'' = ''Sq * Tst*'' \<and>
   str_split (extract_merchant_name ''SQ * TST*'') = [''Sq'', ''*'', ''Tst*'']"
  by code_simp

end
